theory Spec2Isabelle
  imports Complex_Main
begin

section \<open>Time values and Python arithmetic\<close>

text \<open>
  A \<open>datetime\<close> is a point in time and a \<open>timedelta\<close> a signed length of time, both counted
  in minutes as exact rationals. Durations of activities are hours, as exact rationals too:
  the input form yields multiples of one half between 0.5 and 12, on which the floating-point
  arithmetic of the program is exact.
\<close>

type_synonym datetime = rat
type_synonym timedelta = rat

definition timedelta_hours :: "rat \<Rightarrow> timedelta" where
  "timedelta_hours h = 60 * h"

definition timedelta_minutes :: "rat \<Rightarrow> timedelta" where
  "timedelta_minutes m = m"

definition total_seconds :: "timedelta \<Rightarrow> rat" where
  "total_seconds d = 60 * d"

text \<open>Python's \<open>int(x)\<close> on a float truncates towards zero.\<close>

definition py_int :: "rat \<Rightarrow> int" where
  "py_int x = (if 0 \<le> x then \<lfloor>x\<rfloor> else \<lceil>x\<rceil>)"

text \<open>Python's \<open>a // b\<close> on floats: the floor of the quotient, still a float.\<close>

definition floordiv :: "rat \<Rightarrow> rat \<Rightarrow> rat" where
  "floordiv a b = of_int \<lfloor>a / b\<rfloor>"

text \<open>\<open>range(n)\<close> is empty for \<open>n \<le> 0\<close>; \<open>range(a, b)\<close> is empty for \<open>b \<le> a\<close>.\<close>

definition py_range :: "int \<Rightarrow> nat list" where
  "py_range n = [0..<nat n]"

definition py_range2 :: "nat \<Rightarrow> nat \<Rightarrow> nat list" where
  "py_range2 a b = [a..<b]"

section \<open>Weather preferences: \<open>weather_condition_check\<close>\<close>

datatype preference = Sunny | Cloudy | Rainy

fun condition_map :: "preference \<Rightarrow> int \<Rightarrow> bool" where
  "condition_map Sunny rain_chance = (rain_chance < 20)"
| "condition_map Cloudy rain_chance = (20 \<le> rain_chance \<and> rain_chance \<le> 70)"
| "condition_map Rainy rain_chance = (rain_chance > 70)"

text \<open>The loop over the preferences returns at the first category that accepts.\<close>

fun weather_condition_check :: "int \<Rightarrow> preference list \<Rightarrow> bool" where
  "weather_condition_check rain [] = False"
| "weather_condition_check rain (preference # preferences) =
     (if condition_map preference rain then True
      else weather_condition_check rain preferences)"

section \<open>Activities and weather observations\<close>

text \<open>An activity is the dictionary \<open>{"name", "duration", "weather"}\<close> of the input form.\<close>

record activity =
  name :: string
  duration :: rat
  weather :: "preference list"

text \<open>
  A row of the weather table. Only the columns the solver reads are kept: the key column
  \<open>datetime\<close> and \<open>chance_of_rain\<close>.
\<close>

record weather_row =
  datetime :: datetime
  chance_of_rain :: int

text \<open>
  The dictionary comprehension over the rows: a later row with the same key replaces an
  earlier one.
\<close>

definition weather_dict_of :: "weather_row list \<Rightarrow> (datetime \<rightharpoonup> weather_row)" where
  "weather_dict_of weather_data = foldl (\<lambda>m row. m(datetime row \<mapsto> row)) Map.empty weather_data"

section \<open>Exceptions\<close>

text \<open>
  The exceptions that can leave \<open>solve_csp\<close>; none of them is caught there. The first is
  the \<open>ValueError\<close> of pandas for the truth test of a \<open>Series\<close>. The next two are the
  \<open>ValueError\<close>s of the constraint library's \<open>addVariable\<close>, the fourth its \<open>KeyError\<close> for
  a constraint on a name that is no variable. The last one is raised by \<open>next(...)\<close> on an
  exhausted generator.
\<close>

datatype error =
  Truth_value_of_a_Series_is_ambiguous
| Tried_to_insert_duplicated_variable string
| Domain_is_empty
| KeyError string
| StopIteration

section \<open>The weather constraint: \<open>weather_constraint\<close>\<close>

text \<open>
  The values of \<open>weather_dict\<close> are the rows that \<open>iterrows()\<close> yields, each a pandas
  \<open>Series\<close>. The truth test of a \<open>Series\<close>, as in \<open>if weather_data:\<close>, raises \<open>ValueError\<close>
  whatever the row holds.
\<close>

definition series_bool :: "weather_row \<Rightarrow> error + bool" where
  "series_bool row = Inl Truth_value_of_a_Series_is_ambiguous"

text \<open>
  The loop over \<open>range(int(duration))\<close>. \<open>weather_dict.get(hour)\<close> is \<open>None\<close> for an hour
  without an observation; \<open>None\<close> is false, so the guard \<open>if weather_data:\<close> skips that
  hour. For an hour with an observation the guard is the truth test of the row.
\<close>

fun weather_constraint_loop ::
  "datetime \<Rightarrow> preference list \<Rightarrow> (datetime \<rightharpoonup> weather_row) \<Rightarrow> nat list \<Rightarrow> error + bool" where
  "weather_constraint_loop start_time preferences weather_dict [] = Inr True"
| "weather_constraint_loop start_time preferences weather_dict (hour_offset # offsets) =
     (case weather_dict (start_time + timedelta_hours (of_nat hour_offset)) of
        None \<Rightarrow> weather_constraint_loop start_time preferences weather_dict offsets
      | Some weather_data \<Rightarrow>
          (case series_bool weather_data of
             Inl e \<Rightarrow> Inl e
           | Inr truthy \<Rightarrow>
               if truthy then
                 (if \<not> weather_condition_check (chance_of_rain weather_data) preferences
                  then Inr False
                  else weather_constraint_loop start_time preferences weather_dict offsets)
               else weather_constraint_loop start_time preferences weather_dict offsets))"

definition weather_constraint ::
  "datetime \<Rightarrow> rat \<Rightarrow> preference list \<Rightarrow> (datetime \<rightharpoonup> weather_row) \<Rightarrow> error + bool" where
  "weather_constraint start_time dur preferences weather_dict =
     weather_constraint_loop start_time preferences weather_dict (py_range (py_int dur))"

text \<open>
  The weather constraint in the words of the specification, for comparison: every hour
  offset below the whole-hour duration needs an observation that the activity's preferences
  accept; an hour without an observation fails.
\<close>

definition weather_constraint_spec ::
  "datetime \<Rightarrow> rat \<Rightarrow> preference list \<Rightarrow> (datetime \<rightharpoonup> weather_row) \<Rightarrow> bool" where
  "weather_constraint_spec start_time dur preferences weather_dict =
     list_all (\<lambda>h. case weather_dict (start_time + timedelta_hours (of_nat h)) of
                      None \<Rightarrow> False
                    | Some obs \<Rightarrow> weather_condition_check (chance_of_rain obs) preferences)
       (py_range (py_int dur))"

section \<open>Candidate start times\<close>

text \<open>
  The inner loop of \<open>solve_csp\<close> that fills \<open>possible_start_times\<close>. Its \<open>duration\<close> is
  the number of half hours, \<open>int(activity['duration'] * 2)\<close>, called \<open>dur\<close> here; the loop
  variable \<open>hour\<close> runs over \<open>range(int(total_seconds // 1800) - dur)\<close>.
\<close>

fun possible_start_times_loop :: "datetime \<Rightarrow> datetime \<Rightarrow> int \<Rightarrow> nat list \<Rightarrow> datetime list" where
  "possible_start_times_loop start_datetime end_datetime dur [] = []"
| "possible_start_times_loop start_datetime end_datetime dur (hour # hours) =
     (let possible_start = start_datetime + timedelta_minutes (of_nat hour * 60);
          possible_end = possible_start + timedelta_minutes (of_int dur * 60)
      in if possible_end \<le> end_datetime
         then possible_start # possible_start_times_loop start_datetime end_datetime dur hours
         else possible_start_times_loop start_datetime end_datetime dur hours)"

definition possible_start_times :: "activity \<Rightarrow> datetime \<Rightarrow> datetime \<Rightarrow> datetime list" where
  "possible_start_times act start_datetime end_datetime =
     (let dur = py_int (duration act * 2)
      in possible_start_times_loop start_datetime end_datetime dur
           (py_range (py_int (floordiv (total_seconds (end_datetime - start_datetime)) 1800) - dur)))"

section \<open>The constraint problem\<close>

text \<open>
  A variable is an activity's name with its domain. A constraint is a function of the
  values of the variables it is attached to: of two start times for a pair of activities,
  of one start time for the weather. The weather function can raise.
\<close>

type_synonym variable = "string \<times> datetime list"
type_synonym assignment = "(string \<times> datetime) list"

datatype constraint =
  Pair_constraint "datetime \<Rightarrow> datetime \<Rightarrow> bool" string string
| Function_constraint "datetime \<Rightarrow> error + bool" string

record problem =
  variables :: "variable list"
  constraints :: "constraint list"

text \<open>
  \<open>problem.addVariable(name, possible_start_times)\<close> of the constraint library: it raises
  \<open>ValueError\<close> for a name that is a variable already, and \<open>ValueError\<close> for an empty
  domain.
\<close>

definition addVariable :: "variable list \<Rightarrow> string \<Rightarrow> datetime list \<Rightarrow> error + variable list" where
  "addVariable vars variable candidates =
     (if variable \<in> set (map fst vars) then Inl (Tried_to_insert_duplicated_variable variable)
      else if candidates = [] then Inl Domain_is_empty
      else Inr (vars @ [(variable, candidates)]))"

text \<open>The loop of \<open>solve_csp\<close> over the activities that adds one variable each.\<close>

fun add_variables ::
  "variable list \<Rightarrow> activity list \<Rightarrow> datetime \<Rightarrow> datetime \<Rightarrow> error + variable list" where
  "add_variables vars [] start_datetime end_datetime = Inr vars"
| "add_variables vars (act # activities) start_datetime end_datetime =
     (case addVariable vars (name act) (possible_start_times act start_datetime end_datetime) of
        Inl e \<Rightarrow> Inl e
      | Inr vars' \<Rightarrow> add_variables vars' activities start_datetime end_datetime)"

definition no_overlap :: "datetime \<Rightarrow> datetime \<Rightarrow> rat \<Rightarrow> rat \<Rightarrow> bool" where
  "no_overlap start1 start2 dur1 dur2 =
     (let end1 = start1 + timedelta_hours dur1;
          end2 = start2 + timedelta_hours dur2
      in end1 \<le> start2 \<or> end2 \<le> start1)"

text \<open>The two nested loops over \<open>i\<close> and \<open>j > i\<close> that add one constraint per pair.\<close>

definition overlap_constraints :: "activity list \<Rightarrow> constraint list" where
  "overlap_constraints activities =
     concat (map (\<lambda>i. map (\<lambda>j.
         Pair_constraint
           (\<lambda>start1 start2. no_overlap start1 start2 (duration (activities ! i)) (duration (activities ! j)))
           (name (activities ! i)) (name (activities ! j)))
       (py_range2 (i + 1) (length activities)))
     (py_range (int (length activities))))"

definition weather_constraints :: "activity list \<Rightarrow> (datetime \<rightharpoonup> weather_row) \<Rightarrow> constraint list" where
  "weather_constraints activities weather_dict =
     map (\<lambda>act. Function_constraint
           (\<lambda>start_time. weather_constraint start_time (duration act) (weather act) weather_dict)
           (name act))
       activities"

section \<open>\<open>getSolution\<close>\<close>

text \<open>
  The constraint library is not part of the sources. Before it searches, \<open>getSolution\<close>
  applies every constraint on a single variable to that variable's domain: the function is
  called on each value in domain order, the values it rejects are removed, and the
  constraint is dropped. An exception raised by the function ends \<open>getSolution\<close>. The
  constraints on pairs are left for the search.
\<close>

fun filter_domain :: "(datetime \<Rightarrow> error + bool) \<Rightarrow> datetime list \<Rightarrow> error + datetime list" where
  "filter_domain f [] = Inr []"
| "filter_domain f (x # xs) =
     (case f x of
        Inl e \<Rightarrow> Inl e
      | Inr keep \<Rightarrow>
          (case filter_domain f xs of
             Inl e \<Rightarrow> Inl e
           | Inr ys \<Rightarrow> Inr (if keep then x # ys else ys)))"

definition apply_function_constraint ::
  "(datetime \<Rightarrow> error + bool) \<Rightarrow> string \<Rightarrow> variable list \<Rightarrow> error + variable list" where
  "apply_function_constraint f v vars =
     (case map_of vars v of
        None \<Rightarrow> Inl (KeyError v)
      | Some candidates \<Rightarrow>
          (case filter_domain f candidates of
             Inl e \<Rightarrow> Inl e
           | Inr kept \<Rightarrow> Inr (map (\<lambda>(w, d). if w = v then (w, kept) else (w, d)) vars)))"

fun preProcess :: "constraint list \<Rightarrow> variable list \<Rightarrow> error + variable list" where
  "preProcess [] vars = Inr vars"
| "preProcess (Pair_constraint f v1 v2 # cs) vars = preProcess cs vars"
| "preProcess (Function_constraint f v # cs) vars =
     (case apply_function_constraint f v vars of
        Inl e \<Rightarrow> Inl e
      | Inr vars' \<Rightarrow> preProcess cs vars')"

type_synonym pair_constraint = "(datetime \<Rightarrow> datetime \<Rightarrow> bool) \<times> string \<times> string"

fun pair_constraints :: "constraint list \<Rightarrow> pair_constraint list" where
  "pair_constraints [] = []"
| "pair_constraints (Pair_constraint f v1 v2 # cs) = (f, v1, v2) # pair_constraints cs"
| "pair_constraints (Function_constraint f v # cs) = pair_constraints cs"

text \<open>
  Modelled from the spec: the search behind \<open>Problem(BacktrackingSolver()).getSolution()\<close>,
  which belongs to the constraint library and is not part of the sources. Section 4.5 of the
  specification describes it: the activities are taken in input order; for the next
  unassigned activity the candidate start times are tried in domain order; a candidate is
  checked against all constraints that involve only already-assigned activities plus this
  one; a consistent candidate is assigned and the search advances; when all candidates are
  exhausted the search backtracks to the previous activity. A domain without a value left
  makes the problem infeasible (sections 3 and 8).
\<close>

fun constraint_ok :: "(string \<rightharpoonup> datetime) \<Rightarrow> pair_constraint \<Rightarrow> bool" where
  "constraint_ok asg (f, v1, v2) =
     (case asg v1 of None \<Rightarrow> True
      | Some x1 \<Rightarrow> (case asg v2 of None \<Rightarrow> True | Some x2 \<Rightarrow> f x1 x2))"

definition consistent :: "pair_constraint list \<Rightarrow> assignment \<Rightarrow> bool" where
  "consistent cs asg = list_all (constraint_ok (map_of asg)) cs"

function backtracking :: "pair_constraint list \<Rightarrow> assignment \<Rightarrow> variable list \<Rightarrow> assignment option" where
  "backtracking cs asg [] = Some asg"
| "backtracking cs asg ((v, []) # rest) = None"
| "backtracking cs asg ((v, x # xs) # rest) =
     (if consistent cs (asg @ [(v, x)])
      then (case backtracking cs (asg @ [(v, x)]) rest of
              Some solution \<Rightarrow> Some solution
            | None \<Rightarrow> backtracking cs asg ((v, xs) # rest))
      else backtracking cs asg ((v, xs) # rest))"
  by pat_completeness auto
termination
  by (relation "measure (\<lambda>(cs, asg, vars). sum_list (map (\<lambda>(v, dom). Suc (length dom)) vars))") auto

definition getSolution :: "problem \<Rightarrow> error + assignment option" where
  "getSolution p =
     (case preProcess (constraints p) (variables p) of
        Inl e \<Rightarrow> Inl e
      | Inr vars \<Rightarrow> Inr (backtracking (pair_constraints (constraints p)) [] vars))"

section \<open>The schedule and \<open>solve_csp\<close>\<close>

text \<open>
  An entry of the schedule is the dictionary \<open>{'start', 'end'}\<close>. The schedule is kept as
  the list of its items in insertion order. \<open>next(...)\<close> over the activities with the
  item's name raises \<open>StopIteration\<close> when there is none.
\<close>

record slot =
  slot_start :: datetime
  slot_end :: datetime

type_synonym schedule = "(string \<times> slot) list"

datatype outcome = No_feasible_schedule_found | Schedule schedule

fun build_schedule :: "activity list \<Rightarrow> schedule \<Rightarrow> assignment \<Rightarrow> error + schedule" where
  "build_schedule activities sched [] = Inr sched"
| "build_schedule activities sched ((activity_name, start_time) # items) =
     (case find (\<lambda>act. name act = activity_name) activities of
        None \<Rightarrow> Inl StopIteration
      | Some act \<Rightarrow>
          (let end_time = start_time + timedelta_minutes (duration act * 60)
           in build_schedule activities
                (sched @ [(activity_name, \<lparr>slot_start = start_time, slot_end = end_time\<rparr>)]) items))"

text \<open>
  \<open>solve_csp\<close>: the weather dictionary, the variables, the constraints, the solution, and
  the result: the message for no solution, the schedule otherwise. An exception of any step
  leaves the function.
\<close>

definition solve_csp ::
  "activity list \<Rightarrow> weather_row list \<Rightarrow> datetime \<Rightarrow> datetime \<Rightarrow> error + outcome" where
  "solve_csp activities weather_data start_datetime end_datetime =
     (let weather_dict = weather_dict_of weather_data
      in case add_variables [] activities start_datetime end_datetime of
           Inl e \<Rightarrow> Inl e
         | Inr vars \<Rightarrow>
             (let prob = \<lparr>variables = vars,
                          constraints = overlap_constraints activities
                                          @ weather_constraints activities weather_dict\<rparr>
              in case getSolution prob of
                   Inl e \<Rightarrow> Inl e
                 | Inr None \<Rightarrow> Inr No_feasible_schedule_found
                 | Inr (Some solution) \<Rightarrow>
                     (case build_schedule activities [] solution of
                        Inl e \<Rightarrow> Inl e
                      | Inr sched \<Rightarrow> Inr (Schedule sched))))"

section \<open>Properties of the weather predicate and the weather constraint\<close>

lemma weather_condition_check_iff:
  "weather_condition_check c prefs = (\<exists>p \<in> set prefs. condition_map p c)"
  by (induction prefs) auto

lemma py_int_less_one: "dur < 1 \<Longrightarrow> py_int dur \<le> 0"
  unfolding py_int_def by (auto simp: floor_le_iff ceiling_le_iff)

lemma weather_constraint_loop_skip:
  "weather_constraint_loop s prefs wd hs =
     weather_constraint_loop s prefs wd
       (filter (\<lambda>h. wd (s + timedelta_hours (of_nat h)) \<noteq> None) hs)"
  by (induction hs) (auto simp: series_bool_def split: option.splits)

lemma weather_constraint_loop_cases:
  "weather_constraint_loop s prefs wd hs =
     (if list_all (\<lambda>h. wd (s + timedelta_hours (of_nat h)) = None) hs then Inr True
      else Inl Truth_value_of_a_Series_is_ambiguous)"
  by (induction hs) (auto simp: series_bool_def split: option.splits)

section \<open>Properties of the candidate start times and of the variables\<close>

lemma py_int_of_int: "py_int (of_int z) = z"
  by (simp add: py_int_def)

lemma py_int_upper: "x < of_int (py_int x) + 1"
  unfolding py_int_def by (auto simp: floor_less_iff less_ceiling_iff) linarith+

lemma possible_start_times_too_long:
  assumes "timedelta_hours (duration act) > end_datetime - start_datetime"
  shows "possible_start_times act start_datetime end_datetime = []"
proof -
  let ?w = "end_datetime - start_datetime"
  let ?n = "\<lfloor>total_seconds ?w / 1800\<rfloor>"
  let ?d = "py_int (duration act * 2)"
  have "of_int ?n \<le> total_seconds ?w / 1800" by (rule of_int_floor_le)
  also have "\<dots> = ?w / 30" by (simp add: total_seconds_def)
  also have "\<dots> < duration act * 2" using assms by (simp add: timedelta_hours_def)
  also have "\<dots> < of_int ?d + 1" by (rule py_int_upper)
  finally have "(of_int ?n :: rat) < of_int (?d + 1)" by simp
  then have "?n < ?d + 1" by (simp only: of_int_less_iff)
  then have "py_range (py_int (floordiv (total_seconds ?w) 1800) - ?d) = []"
    by (simp add: floordiv_def py_int_of_int py_range_def)
  then show ?thesis by (simp add: possible_start_times_def Let_def)
qed

lemma add_variables_result:
  "add_variables vars0 acts s e = Inr vars \<Longrightarrow> distinct (map fst vars0) \<Longrightarrow>
     vars = vars0 @ map (\<lambda>act. (name act, possible_start_times act s e)) acts
     \<and> distinct (map fst vars)
     \<and> (\<forall>act \<in> set acts. possible_start_times act s e \<noteq> [])"
proof (induction vars0 acts s e arbitrary: vars rule: add_variables.induct)
  case (1 vars s e)
  then show ?case by simp
next
  case (2 vars0 act activities s e)
  from "2.prems"(1) obtain vars' where
    a: "addVariable vars0 (name act) (possible_start_times act s e) = Inr vars'"
    and r: "add_variables vars' activities s e = Inr vars"
    by (auto split: sum.splits)
  from a have fresh: "name act \<notin> set (map fst vars0)"
    and ne: "possible_start_times act s e \<noteq> []"
    and v': "vars' = vars0 @ [(name act, possible_start_times act s e)]"
    by (auto simp: addVariable_def split: if_splits)
  from fresh v' "2.prems"(2) have d: "distinct (map fst vars')" by simp
  from "2.IH" [OF a r d]
  have e1: "vars = vars' @ map (\<lambda>act. (name act, possible_start_times act s e)) activities"
    and e2: "distinct (map fst vars)"
    and e3: "\<forall>act \<in> set activities. possible_start_times act s e \<noteq> []"
    by blast+
  from e1 v' have "vars = vars0 @ map (\<lambda>act. (name act, possible_start_times act s e)) (act # activities)"
    by simp
  with e2 e3 ne show ?case by simp
qed

lemma add_variables_error:
  "act \<in> set acts \<Longrightarrow> possible_start_times act s e = [] \<Longrightarrow>
     add_variables vars0 acts s e = Inl Domain_is_empty
     \<or> (\<exists>n. add_variables vars0 acts s e = Inl (Tried_to_insert_duplicated_variable n))"
proof (induction vars0 acts s e rule: add_variables.induct)
  case (1 vars s e)
  then show ?case by simp
next
  case (2 vars0 a activities s e)
  show ?case
  proof (cases "addVariable vars0 (name a) (possible_start_times a s e)")
    case (Inl err)
    then have "err = Domain_is_empty \<or> (\<exists>n. err = Tried_to_insert_duplicated_variable n)"
      by (auto simp: addVariable_def split: if_splits)
    with Inl show ?thesis by auto
  next
    case (Inr vars')
    then have "possible_start_times a s e \<noteq> []"
      by (auto simp: addVariable_def split: if_splits)
    with "2.prems" have "act \<in> set activities" by auto
    from "2.IH" [OF Inr this "2.prems"(2)] Inr show ?thesis by simp
  qed
qed

lemma add_variables_empty_domain:
  "act \<in> set acts \<Longrightarrow> possible_start_times act s e = [] \<Longrightarrow>
     distinct (map fst vars0 @ map name acts) \<Longrightarrow>
     add_variables vars0 acts s e = Inl Domain_is_empty"
proof (induction vars0 acts s e rule: add_variables.induct)
  case (1 vars s e)
  then show ?case by simp
next
  case (2 vars0 a activities s e)
  from "2.prems"(3) have fresh: "name a \<notin> set (map fst vars0)" by auto
  show ?case
  proof (cases "possible_start_times a s e = []")
    case True
    with fresh show ?thesis by (simp add: addVariable_def)
  next
    case False
    with fresh have a: "addVariable vars0 (name a) (possible_start_times a s e)
        = Inr (vars0 @ [(name a, possible_start_times a s e)])"
      by (simp add: addVariable_def)
    from False "2.prems" have m: "act \<in> set activities" by auto
    from "2.prems"(3) have d: "distinct (map fst (vars0 @ [(name a, possible_start_times a s e)]) @ map name activities)"
      by auto
    from "2.IH" [OF a m "2.prems"(2) d] a show ?thesis by simp
  qed
qed

section \<open>Properties of \<open>getSolution\<close>\<close>

lemma filter_domain_result:
  "filter_domain f xs = Inr ys \<Longrightarrow> set ys \<subseteq> set xs \<and> (\<forall>y \<in> set ys. f y = Inr True)"
proof (induction xs arbitrary: ys)
  case Nil
  then show ?case by simp
next
  case (Cons x xs)
  from Cons.prems obtain keep zs where k: "f x = Inr keep" and z: "filter_domain f xs = Inr zs"
    and y: "ys = (if keep then x # zs else zs)"
    by (auto split: sum.splits)
  from Cons.IH [OF z] k y show ?case by auto
qed

lemma map_of_nth_distinct:
  "distinct (map fst vars) \<Longrightarrow> i < length vars \<Longrightarrow> map_of vars (fst (vars ! i)) = Some (snd (vars ! i))"
  by (metis map_of_eq_Some_iff nth_mem prod.collapse)

lemma apply_function_constraint_result:
  assumes "apply_function_constraint f v vars = Inr vars'" and "distinct (map fst vars)"
  shows "map fst vars' = map fst vars
     \<and> (\<forall>i < length vars. set (snd (vars' ! i)) \<subseteq> set (snd (vars ! i)))
     \<and> (\<forall>i < length vars. fst (vars ! i) = v \<longrightarrow> (\<forall>x \<in> set (snd (vars' ! i)). f x = Inr True))"
proof -
  from assms(1) obtain cands kept where m: "map_of vars v = Some cands"
    and k: "filter_domain f cands = Inr kept"
    and v': "vars' = map (\<lambda>(w, d). if w = v then (w, kept) else (w, d)) vars"
    by (auto simp: apply_function_constraint_def split: option.splits sum.splits)
  from filter_domain_result [OF k] have sub: "set kept \<subseteq> set cands"
    and acc: "\<forall>y \<in> set kept. f y = Inr True" by simp_all
  have names: "map fst vars' = map fst vars"
    unfolding v' by (induction vars) auto
  have at: "vars' ! i = (if fst (vars ! i) = v then (v, kept) else vars ! i)" if "i < length vars" for i
    using that unfolding v' by (simp add: case_prod_beta)
  have c: "snd (vars ! i) = cands" if "i < length vars" "fst (vars ! i) = v" for i
    using map_of_nth_distinct [OF assms(2) that(1)] that(2) m by simp
  from names at sub acc c show ?thesis by auto
qed

lemma preProcess_result:
  "preProcess cs vars = Inr vars' \<Longrightarrow> distinct (map fst vars) \<Longrightarrow>
     map fst vars' = map fst vars
     \<and> (\<forall>i < length vars. set (snd (vars' ! i)) \<subseteq> set (snd (vars ! i)))
     \<and> (\<forall>f v i. Function_constraint f v \<in> set cs \<and> i < length vars \<and> fst (vars ! i) = v
           \<longrightarrow> (\<forall>x \<in> set (snd (vars' ! i)). f x = Inr True))"
proof (induction cs vars arbitrary: vars' rule: preProcess.induct)
  case (1 vars)
  then show ?case by simp
next
  case (2 f v1 v2 cs vars)
  from "2.IH" [of vars'] "2.prems" show ?case by simp
next
  case (3 f v cs vars)
  from "3.prems"(1) obtain mid where a: "apply_function_constraint f v vars = Inr mid"
    and p: "preProcess cs mid = Inr vars'"
    by (auto split: sum.splits)
  from apply_function_constraint_result [OF a "3.prems"(2)]
  have n1: "map fst mid = map fst vars"
    and s1: "\<forall>i < length vars. set (snd (mid ! i)) \<subseteq> set (snd (vars ! i))"
    and a1: "\<forall>i < length vars. fst (vars ! i) = v \<longrightarrow> (\<forall>x \<in> set (snd (mid ! i)). f x = Inr True)"
    by simp_all
  from n1 "3.prems"(2) have dm: "distinct (map fst mid)" by simp
  from n1 have lm: "length mid = length vars" by (metis length_map)
  from "3.IH" [OF a p dm]
  have n2: "map fst vars' = map fst mid"
    and s2: "\<forall>i < length mid. set (snd (vars' ! i)) \<subseteq> set (snd (mid ! i))"
    and a2: "\<forall>g w i. Function_constraint g w \<in> set cs \<and> i < length mid \<and> fst (mid ! i) = w
           \<longrightarrow> (\<forall>x \<in> set (snd (vars' ! i)). g x = Inr True)"
    by simp_all
  have fst_eq: "fst (mid ! i) = fst (vars ! i)" if "i < length vars" for i
    using n1 that lm by (metis nth_map)
  have "map fst vars' = map fst vars" using n1 n2 by simp
  moreover have "\<forall>i < length vars. set (snd (vars' ! i)) \<subseteq> set (snd (vars ! i))"
    using s1 s2 lm by fastforce
  moreover have "\<forall>g w i. Function_constraint g w \<in> set (Function_constraint f v # cs)
           \<and> i < length vars \<and> fst (vars ! i) = w
           \<longrightarrow> (\<forall>x \<in> set (snd (vars' ! i)). g x = Inr True)"
  proof (intro allI impI ballI)
    fix g w i x
    assume h: "Function_constraint g w \<in> set (Function_constraint f v # cs)
           \<and> i < length vars \<and> fst (vars ! i) = w" and x: "x \<in> set (snd (vars' ! i))"
    then have i: "i < length vars" and w: "fst (vars ! i) = w" by simp_all
    show "g x = Inr True"
    proof (cases "Function_constraint g w \<in> set cs")
      case True
      with a2 i lm fst_eq [OF i] w x show ?thesis by auto
    next
      case False
      with h have "g = f" "w = v" by auto
      moreover from s2 i lm x have "x \<in> set (snd (mid ! i))" by auto
      ultimately show ?thesis using a1 i w by auto
    qed
  qed
  ultimately show ?case by blast
qed

lemma pair_constraints_mem:
  "Pair_constraint f v1 v2 \<in> set cs \<Longrightarrow> (f, v1, v2) \<in> set (pair_constraints cs)"
  by (induction cs rule: pair_constraints.induct) auto

lemma constraint_ok_empty: "constraint_ok Map.empty c"
  by (cases c) simp_all

lemma consistent_Nil: "consistent cs []"
  by (simp add: consistent_def list_all_iff constraint_ok_empty)

lemma backtracking_consistent:
  "backtracking cs asg vars = Some sol \<Longrightarrow> consistent cs asg \<Longrightarrow> consistent cs sol"
  by (induction cs asg vars rule: backtracking.induct) (auto split: if_splits option.splits)

lemma backtracking_shape:
  "backtracking cs asg vars = Some sol \<Longrightarrow>
     \<exists>vals. length vals = length vars \<and> sol = asg @ zip (map fst vars) vals
       \<and> (\<forall>i < length vars. vals ! i \<in> set (snd (vars ! i)))"
proof (induction cs asg vars arbitrary: sol rule: backtracking.induct)
  case (1 cs asg)
  then show ?case by simp
next
  case (2 cs asg v rest)
  then show ?case by simp
next
  case (3 cs asg v x xs rest)
  show ?case
  proof (cases "consistent cs (asg @ [(v, x)]) \<and> backtracking cs (asg @ [(v, x)]) rest \<noteq> None")
    case True
    then have "backtracking cs (asg @ [(v, x)]) rest = Some sol"
      using "3.prems" by (auto split: option.splits)
    from "3.IH"(1) [OF _ this] True
    obtain vals where v: "length vals = length rest" "sol = (asg @ [(v, x)]) @ zip (map fst rest) vals"
      "\<forall>i < length rest. vals ! i \<in> set (snd (rest ! i))"
      by blast
    have "\<forall>i < length ((v, x # xs) # rest). (x # vals) ! i \<in> set (snd (((v, x # xs) # rest) ! i))"
      using v(3) by (auto simp: nth_Cons split: nat.splits)
    with v(1,2) show ?thesis
      by (intro exI [of _ "x # vals"]) simp
  next
    case False
    then have "backtracking cs asg ((v, xs) # rest) = Some sol"
      using "3.prems" by (auto split: option.splits if_splits)
    moreover have "\<exists>vals. length vals = length ((v, xs) # rest) \<and> sol = asg @ zip (map fst ((v, xs) # rest)) vals
       \<and> (\<forall>i < length ((v, xs) # rest). vals ! i \<in> set (snd (((v, xs) # rest) ! i)))"
    proof (cases "consistent cs (asg @ [(v, x)])")
      case True
      with False have "backtracking cs (asg @ [(v, x)]) rest = None" by simp
      from "3.IH"(2) [OF True this calculation] show ?thesis .
    next
      case f: False
      from "3.IH"(3) [OF f calculation] show ?thesis .
    qed
    then obtain vals where v: "length vals = length ((v, xs) # rest)"
      "sol = asg @ zip (map fst ((v, xs) # rest)) vals"
      "\<forall>i < length ((v, xs) # rest). vals ! i \<in> set (snd (((v, xs) # rest) ! i))"
      by blast
    have "\<forall>i < length ((v, x # xs) # rest). vals ! i \<in> set (snd (((v, x # xs) # rest) ! i))"
      using v(3) by (auto simp: nth_Cons split: nat.splits)
    with v(1,2) show ?thesis
      by (intro exI [of _ vals]) simp
  qed
qed

lemma backtracking_empty_domain:
  "(v, []) \<in> set vars \<Longrightarrow> backtracking cs asg vars = None"
  by (induction cs asg vars rule: backtracking.induct) (auto split: option.splits)

lemma consistentD: "consistent cs asg \<Longrightarrow> c \<in> set cs \<Longrightarrow> constraint_ok (map_of asg) c"
  by (simp add: consistent_def list_all_iff)

section \<open>Properties of the schedule builder and of \<open>solve_csp\<close>\<close>

lemma timedelta_minutes_hours: "timedelta_minutes (dur * 60) = timedelta_hours dur"
  by (simp add: timedelta_minutes_def timedelta_hours_def)

lemma find_name_distinct:
  "distinct (map name acts) \<Longrightarrow> i < length acts \<Longrightarrow>
     find (\<lambda>a. name a = name (acts ! i)) acts = Some (acts ! i)"
proof (induction acts arbitrary: i)
  case Nil
  then show ?case by simp
next
  case (Cons a acts)
  show ?case
  proof (cases i)
    case 0
    then show ?thesis by simp
  next
    case (Suc k)
    with Cons.prems have k: "k < length acts" and d: "distinct (map name acts)"
      and na: "name a \<notin> name ` set acts" by auto
    from k na have "name a \<noteq> name (acts ! k)" by (metis imageI nth_mem)
    with Cons.IH [OF d k] Suc show ?thesis by simp
  qed
qed

lemma build_schedule_result:
  "build_schedule acts sched items = Inr r \<Longrightarrow>
     length r = length sched + length items
     \<and> take (length sched) r = sched
     \<and> (\<forall>i < length items. \<exists>act.
            find (\<lambda>a. name a = fst (items ! i)) acts = Some act
          \<and> r ! (length sched + i) =
              (fst (items ! i),
               \<lparr>slot_start = snd (items ! i),
                slot_end = snd (items ! i) + timedelta_minutes (duration act * 60)\<rparr>))"
proof (induction acts sched items arbitrary: r rule: build_schedule.induct)
  case (1 activities sched)
  then show ?case by simp
next
  case (2 activities sched activity_name start_time items)
  from "2.prems" obtain act where f: "find (\<lambda>a. name a = activity_name) activities = Some act"
    by (auto split: option.splits)
  let ?e = "(activity_name, \<lparr>slot_start = start_time, slot_end = start_time + timedelta_minutes (duration act * 60)\<rparr>)"
  from "2.prems" f have b: "build_schedule activities (sched @ [?e]) items = Inr r"
    by (simp add: Let_def)
  from "2.IH" [OF f refl b]
  have len: "length r = length (sched @ [?e]) + length items"
    and tk: "take (length (sched @ [?e])) r = sched @ [?e]"
    and rest: "\<forall>i < length items. \<exists>act.
            find (\<lambda>a. name a = fst (items ! i)) activities = Some act
          \<and> r ! (length (sched @ [?e]) + i) =
              (fst (items ! i),
               \<lparr>slot_start = snd (items ! i),
                slot_end = snd (items ! i) + timedelta_minutes (duration act * 60)\<rparr>)"
    by blast+
  have t1: "take (length sched) r = sched"
  proof -
    have "take (length sched) (take (length (sched @ [?e])) r) = take (length sched) (sched @ [?e])"
      using tk by simp
    then show ?thesis by (simp add: min_def)
  qed
  have h: "r ! length sched = ?e"
  proof -
    have "r ! length sched = (take (length (sched @ [?e])) r) ! length sched"
      by simp
    also have "\<dots> = (sched @ [?e]) ! length sched" using tk by simp
    finally show ?thesis by simp
  qed
  have "\<exists>act. find (\<lambda>a. name a = fst (((activity_name, start_time) # items) ! i)) activities = Some act
          \<and> r ! (length sched + i) =
              (fst (((activity_name, start_time) # items) ! i),
               \<lparr>slot_start = snd (((activity_name, start_time) # items) ! i),
                slot_end = snd (((activity_name, start_time) # items) ! i) + timedelta_minutes (duration act * 60)\<rparr>)"
    if "i < length ((activity_name, start_time) # items)" for i
  proof (cases i)
    case 0
    with f h show ?thesis by simp
  next
    case (Suc k)
    with that have "k < length items" by simp
    with rest Suc show ?thesis by simp
  qed
  with len t1 show ?case by simp
qed

lemma overlap_constraints_mem:
  "i < j \<Longrightarrow> j < length acts \<Longrightarrow>
     Pair_constraint
       (\<lambda>start1 start2. no_overlap start1 start2 (duration (acts ! i)) (duration (acts ! j)))
       (name (acts ! i)) (name (acts ! j)) \<in> set (overlap_constraints acts)"
  unfolding overlap_constraints_def py_range_def py_range2_def by force

lemma weather_constraints_mem:
  "i < length acts \<Longrightarrow>
     Function_constraint
       (\<lambda>start_time. weather_constraint start_time (duration (acts ! i)) (weather (acts ! i)) wd)
       (name (acts ! i)) \<in> set (weather_constraints acts wd)"
  unfolding weather_constraints_def by force

lemma length_overlap_constraints:
  "length (overlap_constraints acts) = length acts * (length acts - 1) div 2"
proof -
  let ?n = "length acts"
  have "length (overlap_constraints acts) = sum_list (map (\<lambda>i. ?n - Suc i) [0..<?n])"
    unfolding overlap_constraints_def py_range_def py_range2_def
    by (simp add: length_concat comp_def)
  also have "\<dots> = (\<Sum>i<?n. ?n - Suc i)"
    by (simp add: interv_sum_list_conv_sum_set_nat atLeast0LessThan)
  also have "\<dots> = (\<Sum>i<?n. i)"
    by (rule sum.nat_diff_reindex)
  also have "\<dots> = ?n * (?n - 1) div 2"
    by (simp add: Sum_Ico_nat lessThan_atLeast0)
  finally show ?thesis .
qed

lemma solve_csp_shape:
  assumes s: "solve_csp acts w s e = Inr (Schedule sched)"
  shows "distinct (map name acts) \<and> (\<exists>vals. length vals = length acts
     \<and> consistent (pair_constraints (overlap_constraints acts @ weather_constraints acts (weather_dict_of w)))
         (zip (map name acts) vals)
     \<and> (\<forall>i < length acts.
           vals ! i \<in> set (possible_start_times (acts ! i) s e)
         \<and> weather_constraint (vals ! i) (duration (acts ! i)) (weather (acts ! i)) (weather_dict_of w)
             = Inr True
         \<and> map_of (zip (map name acts) vals) (name (acts ! i)) = Some (vals ! i)
         \<and> map_of sched (name (acts ! i)) =
             Some \<lparr>slot_start = vals ! i,
                   slot_end = vals ! i + timedelta_minutes (duration (acts ! i) * 60)\<rparr>))"
proof -
  let ?wd = "weather_dict_of w"
  let ?cs = "overlap_constraints acts @ weather_constraints acts ?wd"
  from s obtain vars vars' sol where av: "add_variables [] acts s e = Inr vars"
    and pre: "preProcess ?cs vars = Inr vars'"
    and sol: "backtracking (pair_constraints ?cs) [] vars' = Some sol"
    and b: "build_schedule acts [] sol = Inr sched"
    by (auto simp: solve_csp_def getSolution_def Let_def split: option.splits sum.splits)
  have "vars = [] @ map (\<lambda>act. (name act, possible_start_times act s e)) acts
     \<and> distinct (map fst vars)
     \<and> (\<forall>act \<in> set acts. possible_start_times act s e \<noteq> [])"
    by (rule add_variables_result [OF av]) simp
  then have vars: "vars = map (\<lambda>act. (name act, possible_start_times act s e)) acts"
    and dv: "distinct (map fst vars)"
    by blast+
  have names: "map fst vars = map name acts" unfolding vars by (simp add: comp_def)
  with dv have d: "distinct (map name acts)" by simp
  have lv: "length vars = length acts" unfolding vars by simp
  from preProcess_result [OF pre dv]
  have n': "map fst vars' = map fst vars"
    and sub: "\<forall>i < length vars. set (snd (vars' ! i)) \<subseteq> set (snd (vars ! i))"
    and acc: "\<forall>f v i. Function_constraint f v \<in> set ?cs \<and> i < length vars \<and> fst (vars ! i) = v
           \<longrightarrow> (\<forall>x \<in> set (snd (vars' ! i)). f x = Inr True)"
    by blast+
  from n' have lv': "length vars' = length acts" using lv by (metis length_map)
  from backtracking_shape [OF sol] obtain vals where
    len: "length vals = length vars'" and eq0: "sol = zip (map fst vars') vals"
    and dom0: "\<forall>i < length vars'. vals ! i \<in> set (snd (vars' ! i))"
    by auto
  from len lv' have len: "length vals = length acts" by simp
  from eq0 n' names have eq: "sol = zip (map name acts) vals" by simp
  have dom: "vals ! i \<in> set (possible_start_times (acts ! i) s e)" if i: "i < length acts" for i
  proof -
    from dom0 i lv' have "vals ! i \<in> set (snd (vars' ! i))" by simp
    with sub i lv have "vals ! i \<in> set (snd (vars ! i))" by auto
    with i show ?thesis unfolding vars by simp
  qed
  have wc: "weather_constraint (vals ! i) (duration (acts ! i)) (weather (acts ! i)) ?wd = Inr True"
    if i: "i < length acts" for i
  proof -
    let ?f = "\<lambda>start_time. weather_constraint start_time (duration (acts ! i)) (weather (acts ! i)) ?wd"
    have m: "Function_constraint ?f (name (acts ! i)) \<in> set ?cs"
      using weather_constraints_mem [OF i, of ?wd] by simp
    have fi: "fst (vars ! i) = name (acts ! i)" using i unfolding vars by simp
    from dom0 i lv' have x: "vals ! i \<in> set (snd (vars' ! i))" by simp
    have "?f (vals ! i) = Inr True"
      by (rule acc [rule_format, of ?f "name (acts ! i)" i "vals ! i"]) (use m i lv fi x in simp_all)
    then show ?thesis .
  qed
  have cons: "consistent (pair_constraints ?cs) sol"
    using backtracking_consistent [OF sol consistent_Nil] .
  have look: "map_of (zip (map name acts) vals) (name (acts ! i)) = Some (vals ! i)"
    if "i < length acts" for i
    using map_of_zip_nth [of "map name acts" vals i] d len that by simp
  from build_schedule_result [OF b]
  have lr: "length sched = length sol"
    and ent: "\<forall>i < length sol. \<exists>act.
            find (\<lambda>a. name a = fst (sol ! i)) acts = Some act
          \<and> sched ! i =
              (fst (sol ! i),
               \<lparr>slot_start = snd (sol ! i),
                slot_end = snd (sol ! i) + timedelta_minutes (duration act * 60)\<rparr>)"
    by simp_all
  have lsol: "length sol = length acts" using eq len by simp
  have nth_sched: "sched ! i = (name (acts ! i),
       \<lparr>slot_start = vals ! i, slot_end = vals ! i + timedelta_minutes (duration (acts ! i) * 60)\<rparr>)"
    if i: "i < length acts" for i
  proof -
    have si: "sol ! i = (name (acts ! i), vals ! i)"
      using eq len i by simp
    from ent i lsol obtain act where
      f: "find (\<lambda>a. name a = fst (sol ! i)) acts = Some act"
      and e: "sched ! i = (fst (sol ! i),
               \<lparr>slot_start = snd (sol ! i),
                slot_end = snd (sol ! i) + timedelta_minutes (duration act * 60)\<rparr>)"
      by auto
    from f si find_name_distinct [OF d i] have "act = acts ! i" by simp
    with e si show ?thesis by simp
  qed
  have sched_eq: "sched = zip (map name acts)
      (map (\<lambda>i. \<lparr>slot_start = vals ! i, slot_end = vals ! i + timedelta_minutes (duration (acts ! i) * 60)\<rparr>)
         [0..<length acts])"
    using lr lsol nth_sched by (intro nth_equalityI) auto
  have slook: "map_of sched (name (acts ! i)) =
             Some \<lparr>slot_start = vals ! i,
                   slot_end = vals ! i + timedelta_minutes (duration (acts ! i) * 60)\<rparr>"
    if i: "i < length acts" for i
  proof -
    let ?sl = "map (\<lambda>i. \<lparr>slot_start = vals ! i, slot_end = vals ! i + timedelta_minutes (duration (acts ! i) * 60)\<rparr>)
         [0..<length acts]"
    have "map_of (zip (map name acts) ?sl) (map name acts ! i) = Some (?sl ! i)"
      using d i by (intro map_of_zip_nth) simp_all
    with i show ?thesis unfolding sched_eq by simp
  qed
  have "\<exists>vals. length vals = length acts
     \<and> consistent (pair_constraints ?cs) (zip (map name acts) vals)
     \<and> (\<forall>i < length acts.
           vals ! i \<in> set (possible_start_times (acts ! i) s e)
         \<and> weather_constraint (vals ! i) (duration (acts ! i)) (weather (acts ! i)) ?wd = Inr True
         \<and> map_of (zip (map name acts) vals) (name (acts ! i)) = Some (vals ! i)
         \<and> map_of sched (name (acts ! i)) =
             Some \<lparr>slot_start = vals ! i,
                   slot_end = vals ! i + timedelta_minutes (duration (acts ! i) * 60)\<rparr>)"
    using len cons dom wc look slook unfolding eq by (intro exI [of _ vals]) simp
  with d show ?thesis by blast
qed

section \<open>The claims\<close>




text \<open>
  Claim C2, as amended. The claim reads: when the weather index has no observation for an
  hour the activity would occupy, the weather constraint is not satisfied. The code skips
  such an hour. What holds: the constraint gives the outcome that the offsets in
  \<open>range(int(duration))\<close> with an observation give alone, and when none of these offsets has
  an observation it is satisfied.
\<close>

theorem weather_constraint_skips_missing_hours:
  "weather_constraint start_time dur preferences weather_dict =
     weather_constraint_loop start_time preferences weather_dict
       (filter (\<lambda>h. weather_dict (start_time + timedelta_hours (of_nat h)) \<noteq> None)
          (py_range (py_int dur)))
   \<and> ((\<forall>h. h < nat (py_int dur) \<longrightarrow> weather_dict (start_time + timedelta_hours (of_nat h)) = None)
        \<longrightarrow> weather_constraint start_time dur preferences weather_dict = Inr True)"
proof -
  have skip: "weather_constraint start_time dur preferences weather_dict =
     weather_constraint_loop start_time preferences weather_dict
       (filter (\<lambda>h. weather_dict (start_time + timedelta_hours (of_nat h)) \<noteq> None)
          (py_range (py_int dur)))"
    unfolding weather_constraint_def by (rule weather_constraint_loop_skip)
  have "weather_constraint start_time dur preferences weather_dict = Inr True"
    if "\<forall>h. h < nat (py_int dur) \<longrightarrow> weather_dict (start_time + timedelta_hours (of_nat h)) = None"
  proof -
    from that have "filter (\<lambda>h. weather_dict (start_time + timedelta_hours (of_nat h)) \<noteq> None)
          (py_range (py_int dur)) = []"
      by (simp add: py_range_def filter_empty_conv)
    with skip show ?thesis by simp
  qed
  with skip show ?thesis by blast
qed

theorem weather_constraint_skips_missing_hours_witness:
  "weather_dict_of [] (480 + timedelta_hours (of_nat 0)) = None
   \<and> weather_dict_of [] (480 + timedelta_hours (of_nat 1)) = None
   \<and> weather_dict_of [] (480 + timedelta_hours (of_nat 2)) = None
   \<and> nat (py_int 3) = 3
   \<and> weather_constraint 480 3 [Rainy] (weather_dict_of []) = Inr True"
proof -
  have none: "\<forall>h. h < nat (py_int 3) \<longrightarrow> weather_dict_of [] (480 + timedelta_hours (of_nat h)) = None"
    by (simp add: weather_dict_of_def)
  have three: "nat (py_int 3) = 3" by (simp add: py_int_def)
  from weather_constraint_skips_missing_hours [of 480 3 "[Rainy]" "weather_dict_of []"] none
  have "weather_constraint 480 3 [Rainy] (weather_dict_of []) = Inr True" by blast
  with three show ?thesis by (simp add: weather_dict_of_def)
qed

text \<open>
  The claim C2 as stated fails: with the single observation at 10:00 (minute 600), a
  two-hour activity starting at 08:00 has no observation for either of its hours, and the
  constraint of the code is satisfied, the fail-closed constraint of the specification is
  not.
\<close>

theorem weather_constraint_missing_hour_counterexample:
  "weather_dict_of [\<lparr>datetime = 600, chance_of_rain = 90\<rparr>] (480 + timedelta_hours (of_nat 0)) = None
   \<and> weather_dict_of [\<lparr>datetime = 600, chance_of_rain = 90\<rparr>] (480 + timedelta_hours (of_nat 1)) = None
   \<and> py_range (py_int 2) = [0, 1]
   \<and> weather_constraint 480 2 [Sunny] (weather_dict_of [\<lparr>datetime = 600, chance_of_rain = 90\<rparr>]) = Inr True
   \<and> \<not> weather_constraint_spec 480 2 [Sunny] (weather_dict_of [\<lparr>datetime = 600, chance_of_rain = 90\<rparr>])"
  by code_simp

text \<open>
  Claim C3 at a concrete input. The claim reads: the domain is exactly the ascending sequence
  of the timestamps \<open>window.start + k * granularity\<close> with \<open>t + duration_hours \<le> window.end\<close>.
  For a one-hour activity in the window 08:00 to 12:00 (minutes 480 to 720) the code yields
  08:00, 09:00 and 10:00 only: 11:00 and 08:30 fit into the window and are not candidates.
\<close>

theorem possible_start_times_misses_fitting_start:
  "possible_start_times \<lparr>name = ''a'', duration = 1, weather = [Sunny]\<rparr> 480 720 = [480, 540, 600]
   \<and> (660::rat) = 480 + 6 * 30
   \<and> (660::rat) + timedelta_hours 1 \<le> 720
   \<and> 660 \<notin> set (possible_start_times \<lparr>name = ''a'', duration = 1, weather = [Sunny]\<rparr> 480 720)
   \<and> (510::rat) = 480 + 1 * 30
   \<and> (510::rat) + timedelta_hours 1 \<le> 720
   \<and> 510 \<notin> set (possible_start_times \<lparr>name = ''a'', duration = 1, weather = [Sunny]\<rparr> 480 720)"
  by code_simp

text \<open>
  Claim C4. There is one non-overlap constraint for each of the \<open>n * (n - 1) / 2\<close> pairs
  \<open>i < j\<close> of activities; \<open>no_overlap\<close> holds exactly when one activity ends before the
  other starts; and in a returned schedule, for activities with pairwise distinct names,
  every pair of entries has \<open>end_a \<le> start_b\<close> or \<open>end_b \<le> start_a\<close>, where each end is the
  start plus the duration.
\<close>

theorem no_overlap_all_pairs:
  assumes "distinct (map name activities)"
    and "solve_csp activities weather_data start_datetime end_datetime = Inr (Schedule sched)"
    and "i < j" and "j < length activities"
  shows "length (overlap_constraints activities) = length activities * (length activities - 1) div 2
     \<and> Pair_constraint
         (\<lambda>start1 start2. no_overlap start1 start2 (duration (activities ! i)) (duration (activities ! j)))
         (name (activities ! i)) (name (activities ! j)) \<in> set (overlap_constraints activities)
     \<and> no_overlap start_a start_b dur_a dur_b =
         (start_a + timedelta_hours dur_a \<le> start_b \<or> start_b + timedelta_hours dur_b \<le> start_a)
     \<and> (\<exists>a b. map_of sched (name (activities ! i)) = Some a
            \<and> map_of sched (name (activities ! j)) = Some b
            \<and> slot_end a = slot_start a + timedelta_hours (duration (activities ! i))
            \<and> slot_end b = slot_start b + timedelta_hours (duration (activities ! j))
            \<and> (slot_end a \<le> slot_start b \<or> slot_end b \<le> slot_start a))"
proof -
  from assms(3,4) have i: "i < length activities" by simp
  note j = assms(4)
  let ?f = "\<lambda>start1 start2. no_overlap start1 start2 (duration (activities ! i)) (duration (activities ! j))"
  let ?c = "Pair_constraint ?f (name (activities ! i)) (name (activities ! j))"
  let ?cs = "overlap_constraints activities @ weather_constraints activities (weather_dict_of weather_data)"
  have mem: "?c \<in> set (overlap_constraints activities)"
    by (rule overlap_constraints_mem [OF assms(3,4)])
  then have pmem: "(?f, name (activities ! i), name (activities ! j)) \<in> set (pair_constraints ?cs)"
    by (intro pair_constraints_mem) simp
  from solve_csp_shape [OF assms(2)] obtain vals where
    cons: "consistent (pair_constraints ?cs) (zip (map name activities) vals)"
    and at: "\<forall>i < length activities.
           map_of (zip (map name activities) vals) (name (activities ! i)) = Some (vals ! i)
         \<and> map_of sched (name (activities ! i)) =
             Some \<lparr>slot_start = vals ! i,
                   slot_end = vals ! i + timedelta_minutes (duration (activities ! i) * 60)\<rparr>"
    by blast
  have "constraint_ok (map_of (zip (map name activities) vals))
          (?f, name (activities ! i), name (activities ! j))"
    by (rule consistentD [OF cons pmem])
  with at i j have n: "no_overlap (vals ! i) (vals ! j) (duration (activities ! i)) (duration (activities ! j))"
    by simp
  let ?a = "\<lparr>slot_start = vals ! i, slot_end = vals ! i + timedelta_minutes (duration (activities ! i) * 60)\<rparr>"
  let ?b = "\<lparr>slot_start = vals ! j, slot_end = vals ! j + timedelta_minutes (duration (activities ! j) * 60)\<rparr>"
  have "map_of sched (name (activities ! i)) = Some ?a" "map_of sched (name (activities ! j)) = Some ?b"
    using at i j by simp_all
  moreover have "slot_end ?a = slot_start ?a + timedelta_hours (duration (activities ! i))"
    "slot_end ?b = slot_start ?b + timedelta_hours (duration (activities ! j))"
    by (simp_all add: timedelta_minutes_hours)
  moreover have "slot_end ?a \<le> slot_start ?b \<or> slot_end ?b \<le> slot_start ?a"
    using n by (simp add: no_overlap_def Let_def timedelta_minutes_hours)
  ultimately have sch: "\<exists>a b. map_of sched (name (activities ! i)) = Some a
            \<and> map_of sched (name (activities ! j)) = Some b
            \<and> slot_end a = slot_start a + timedelta_hours (duration (activities ! i))
            \<and> slot_end b = slot_start b + timedelta_hours (duration (activities ! j))
            \<and> (slot_end a \<le> slot_start b \<or> slot_end b \<le> slot_start a)"
    by blast
  have char: "no_overlap start_a start_b dur_a dur_b =
         (start_a + timedelta_hours dur_a \<le> start_b \<or> start_b + timedelta_hours dur_b \<le> start_a)"
    by (simp add: no_overlap_def Let_def)
  from length_overlap_constraints [of activities] mem char sch show ?thesis by blast
qed

theorem no_overlap_all_pairs_witness:
  "distinct (map name [\<lparr>name = ''a'', duration = 3/2, weather = [Sunny]\<rparr>,
                       \<lparr>name = ''b'', duration = 1/2, weather = [Sunny, Cloudy]\<rparr>])
   \<and> solve_csp [\<lparr>name = ''a'', duration = 3/2, weather = [Sunny]\<rparr>,
                \<lparr>name = ''b'', duration = 1/2, weather = [Sunny, Cloudy]\<rparr>] [] 480 660
      = Inr (Schedule [(''a'', \<lparr>slot_start = 480, slot_end = 570\<rparr>),
                       (''b'', \<lparr>slot_start = 600, slot_end = 630\<rparr>)])
   \<and> (0::nat) < 1 \<and> (1::nat) < length [\<lparr>name = ''a'', duration = 3/2, weather = [Sunny]\<rparr>,
                       \<lparr>name = ''b'', duration = 1/2, weather = [Sunny, Cloudy]\<rparr>]
   \<and> length (overlap_constraints [\<lparr>name = ''a'', duration = 3/2, weather = [Sunny]\<rparr>,
                       \<lparr>name = ''b'', duration = 1/2, weather = [Sunny, Cloudy]\<rparr>]) = 1
   \<and> (\<exists>a b. map_of [(''a'', \<lparr>slot_start = 480, slot_end = 570\<rparr>),
                       (''b'', \<lparr>slot_start = 600, slot_end = 630\<rparr>)] ''a'' = Some a
          \<and> map_of [(''a'', \<lparr>slot_start = 480, slot_end = 570\<rparr>),
                       (''b'', \<lparr>slot_start = 600, slot_end = 630\<rparr>)] ''b'' = Some b
          \<and> (slot_end a \<le> slot_start b \<or> slot_end b \<le> slot_start a))"
proof -
  let ?acts = "[\<lparr>name = ''a'', duration = 3/2, weather = [Sunny]\<rparr>,
                \<lparr>name = ''b'', duration = 1/2, weather = [Sunny, Cloudy]\<rparr>]"
  let ?sched = "[(''a'', \<lparr>slot_start = 480, slot_end = 570\<rparr>),
                 (''b'', \<lparr>slot_start = 600, slot_end = 630\<rparr>)]"
  have d: "distinct (map name ?acts)" by simp
  have s: "solve_csp ?acts [] 480 660 = Inr (Schedule ?sched)" by code_simp
  have ij: "(0::nat) < 1" by simp
  have j: "(1::nat) < length ?acts" by simp
  from no_overlap_all_pairs [OF d s ij j]
  have "length (overlap_constraints ?acts) = length ?acts * (length ?acts - 1) div 2"
    and "\<exists>a b. map_of ?sched (name (?acts ! 0)) = Some a
            \<and> map_of ?sched (name (?acts ! 1)) = Some b
            \<and> (slot_end a \<le> slot_start b \<or> slot_end b \<le> slot_start a)"
    by blast+
  with d s show ?thesis by simp
qed

text \<open>
  Claim C5. For every chance of rain and every preference list, \<open>weather_condition_check\<close>
  is true exactly when at least one preferred category accepts the value, with the thresholds
  Sunny below 20, Cloudy from 20 to 70 inclusive, Rainy above 70. The boundary values 20 and
  70 are accepted by Cloudy alone, and an empty preference list gives false. The statement
  holds for every integer, in particular on 0..100.
\<close>

theorem weather_condition_check_thresholds:
  "weather_condition_check c prefs =
     ((Sunny \<in> set prefs \<and> c < 20) \<or> (Cloudy \<in> set prefs \<and> 20 \<le> c \<and> c \<le> 70)
      \<or> (Rainy \<in> set prefs \<and> 70 < c))
   \<and> weather_condition_check 20 prefs = (Cloudy \<in> set prefs)
   \<and> weather_condition_check 70 prefs = (Cloudy \<in> set prefs)
   \<and> weather_condition_check c [] = False"
proof -
  have cases: "condition_map p c = ((p = Sunny \<and> c < 20) \<or> (p = Cloudy \<and> 20 \<le> c \<and> c \<le> 70)
      \<or> (p = Rainy \<and> 70 < c))" for p c
    by (cases p) auto
  have gen: "weather_condition_check c prefs =
     ((Sunny \<in> set prefs \<and> c < 20) \<or> (Cloudy \<in> set prefs \<and> 20 \<le> c \<and> c \<le> 70)
      \<or> (Rainy \<in> set prefs \<and> 70 < c))" for c
    unfolding weather_condition_check_iff cases by blast
  show ?thesis
    using gen [of c] gen [of 20] gen [of 70] by simp
qed

text \<open>
  Claim C6, as amended. The claim reads: a duration that exceeds the planning window yields
  a validation error, distinct from the infeasibility signal and from a crash. \<open>solve_csp\<close>
  validates nothing. What holds: the domain of such an activity is empty, and \<open>solve_csp\<close>
  ends with an exception of \<open>addVariable\<close> that it does not catch, raised while the variables
  are added and before any search: the \<open>ValueError\<close> for an empty domain when the names are
  pairwise distinct, and that one or the \<open>ValueError\<close> for a duplicated variable in general.
\<close>

theorem duration_exceeding_window_raises:
  assumes "act \<in> set activities"
    and "timedelta_hours (duration act) > end_datetime - start_datetime"
  shows "possible_start_times act start_datetime end_datetime = []
     \<and> (solve_csp activities weather_data start_datetime end_datetime = Inl Domain_is_empty
        \<or> (\<exists>n. solve_csp activities weather_data start_datetime end_datetime
                 = Inl (Tried_to_insert_duplicated_variable n)))
     \<and> (distinct (map name activities)
          \<longrightarrow> solve_csp activities weather_data start_datetime end_datetime = Inl Domain_is_empty)"
proof -
  have e: "possible_start_times act start_datetime end_datetime = []"
    by (rule possible_start_times_too_long [OF assms(2)])
  have r: "solve_csp activities weather_data start_datetime end_datetime = Inl err"
    if "add_variables [] activities start_datetime end_datetime = Inl err" for err
    using that by (simp add: solve_csp_def)
  from add_variables_error [OF assms(1) e, of "[]"] r
  have one: "solve_csp activities weather_data start_datetime end_datetime = Inl Domain_is_empty
        \<or> (\<exists>n. solve_csp activities weather_data start_datetime end_datetime
                 = Inl (Tried_to_insert_duplicated_variable n))"
    by auto
  have two: "solve_csp activities weather_data start_datetime end_datetime = Inl Domain_is_empty"
    if "distinct (map name activities)"
    using add_variables_empty_domain [OF assms(1) e, of "[]"] that r by simp
  from e one two show ?thesis by blast
qed

theorem duration_exceeding_window_raises_witness:
  "\<lparr>name = ''b'', duration = 5, weather = [Sunny]\<rparr>
     \<in> set [\<lparr>name = ''a'', duration = 1, weather = [Sunny]\<rparr>, \<lparr>name = ''b'', duration = 5, weather = [Sunny]\<rparr>]
   \<and> timedelta_hours (duration \<lparr>name = ''b'', duration = 5, weather = [Sunny]\<rparr>) > 720 - 480
   \<and> distinct (map name [\<lparr>name = ''a'', duration = 1, weather = [Sunny]\<rparr>, \<lparr>name = ''b'', duration = 5, weather = [Sunny]\<rparr>])
   \<and> possible_start_times \<lparr>name = ''b'', duration = 5, weather = [Sunny]\<rparr> 480 720 = []
   \<and> solve_csp [\<lparr>name = ''a'', duration = 1, weather = [Sunny]\<rparr>, \<lparr>name = ''b'', duration = 5, weather = [Sunny]\<rparr>]
        [] 480 720 = Inl Domain_is_empty"
proof -
  let ?b = "\<lparr>name = ''b'', duration = 5, weather = [Sunny]\<rparr>"
  let ?acts = "[\<lparr>name = ''a'', duration = 1, weather = [Sunny]\<rparr>, ?b]"
  have m: "?b \<in> set ?acts" by simp
  have l: "timedelta_hours (duration ?b) > 720 - 480" by (simp add: timedelta_hours_def)
  have d: "distinct (map name ?acts)" by simp
  from duration_exceeding_window_raises [OF m l, of "[]"] m l d show ?thesis by simp
qed

text \<open>
  The claim C6 as stated fails: for a five-hour activity in a four-hour window the call
  ends with the uncaught \<open>ValueError\<close> for an empty domain.
\<close>

theorem duration_exceeding_window_counterexample:
  "timedelta_hours (duration \<lparr>name = ''a'', duration = 5, weather = [Sunny]\<rparr>) > 720 - 480
   \<and> solve_csp [\<lparr>name = ''a'', duration = 5, weather = [Sunny]\<rparr>] [] 480 720 = Inl Domain_is_empty"
  by code_simp

text \<open>
  Claim C8. When the schedule builder succeeds, the schedule has one entry per item of the
  assignment, in order, under the same name and with the same start, and its end is the
  start plus the duration in hours of the activity with that name, for every duration,
  whole or fractional.
\<close>

theorem build_schedule_end_time:
  assumes "build_schedule activities [] solution = Inr sched"
    and "i < length solution"
  shows "length sched = length solution
     \<and> fst (sched ! i) = fst (solution ! i)
     \<and> slot_start (snd (sched ! i)) = snd (solution ! i)
     \<and> (\<exists>act. find (\<lambda>a. name a = fst (solution ! i)) activities = Some act
            \<and> slot_end (snd (sched ! i)) = slot_start (snd (sched ! i)) + timedelta_hours (duration act))"
proof -
  from build_schedule_result [OF assms(1)]
  have len: "length sched = length solution"
    and ent: "\<forall>i < length solution. \<exists>act.
            find (\<lambda>a. name a = fst (solution ! i)) activities = Some act
          \<and> sched ! i =
              (fst (solution ! i),
               \<lparr>slot_start = snd (solution ! i),
                slot_end = snd (solution ! i) + timedelta_minutes (duration act * 60)\<rparr>)"
    by simp_all
  from ent assms(2) obtain act where
    f: "find (\<lambda>a. name a = fst (solution ! i)) activities = Some act"
    and e: "sched ! i = (fst (solution ! i),
               \<lparr>slot_start = snd (solution ! i),
                slot_end = snd (solution ! i) + timedelta_minutes (duration act * 60)\<rparr>)"
    by blast
  from len f e show ?thesis
    by (simp add: timedelta_minutes_def timedelta_hours_def)
qed

theorem build_schedule_end_time_witness:
  "build_schedule [\<lparr>name = ''a'', duration = 3/2, weather = [Sunny]\<rparr>] [] [(''a'', 480)]
     = Inr [(''a'', \<lparr>slot_start = 480, slot_end = 570\<rparr>)]
   \<and> (0::nat) < length [(''a'', 480::rat)]
   \<and> (\<exists>act. find (\<lambda>a. name a = ''a'') [\<lparr>name = ''a'', duration = 3/2, weather = [Sunny]\<rparr>] = Some act
          \<and> (570::rat) = 480 + timedelta_hours (duration act))"
proof -
  let ?acts = "[\<lparr>name = ''a'', duration = 3/2, weather = [Sunny]\<rparr>]"
  have b: "build_schedule ?acts [] [(''a'', 480)] = Inr [(''a'', \<lparr>slot_start = 480, slot_end = 570\<rparr>)]"
    by code_simp
  have l: "(0::nat) < length [(''a'', 480::rat)]" by simp
  from build_schedule_end_time [OF b l] b show ?thesis by simp
qed

text \<open>
  Claim C9. The three categories partition the chance of rain: for every integer value
  exactly one of Sunny, Cloudy, Rainy accepts it, so the check with the full preference list
  is always true.
\<close>

theorem weather_categories_partition:
  "length (filter (\<lambda>p. condition_map p c) [Sunny, Cloudy, Rainy]) = 1
   \<and> weather_condition_check c [Sunny, Cloudy, Rainy]"
  by simp

text \<open>
  Claim C10. For a duration below one hour the loop of \<open>weather_constraint\<close> runs over an
  empty range, so the constraint is satisfied for every start time, preference list and
  weather index: the placement is not checked against the weather.
\<close>

theorem weather_constraint_short_duration:
  "dur < 1 \<Longrightarrow> py_range (py_int dur) = []
     \<and> weather_constraint start_time dur preferences weather_dict = Inr True"
  using py_int_less_one [of dur] by (simp add: weather_constraint_def py_range_def)

theorem weather_constraint_short_duration_witness:
  "(1/2 :: rat) < 1 \<and> py_range (py_int (1/2)) = []
   \<and> weather_constraint 480 (1/2) [Sunny] (weather_dict_of [\<lparr>datetime = 480, chance_of_rain = 90\<rparr>])
       = Inr True
   \<and> \<not> weather_condition_check 90 [Sunny]"
  using weather_constraint_short_duration [of "1/2" 480 "[Sunny]" "weather_dict_of [\<lparr>datetime = 480, chance_of_rain = 90\<rparr>]"]
  by simp

text \<open>
  Property X1. On the rows that \<open>solve_csp\<close> stores in the weather dictionary,
  \<open>weather_constraint\<close> never returns \<open>False\<close> and never reaches the compatibility
  predicate: it returns \<open>True\<close> when no offset in \<open>range(int(duration))\<close> has an
  observation, and otherwise the truth test of the first row found raises \<open>ValueError\<close>.
\<close>

theorem weather_constraint_never_rejects:
  "weather_constraint start_time dur preferences weather_dict =
     (if list_all (\<lambda>h. weather_dict (start_time + timedelta_hours (of_nat h)) = None)
          (py_range (py_int dur))
      then Inr True else Inl Truth_value_of_a_Series_is_ambiguous)"
  unfolding weather_constraint_def by (rule weather_constraint_loop_cases)

end
